theory Spec2Isabelle
  imports Main
begin

section \<open>The timer worker (WORKER_CODE)\<close>

text \<open>
  The worker keeps one mutable object \<open>state\<close> and one variable \<open>timerId\<close>. The numbers
  it holds are the integers the view sends (results of \<open>parseInt\<close>) and what the worker
  computes from them with \<open>+\<close>, \<open>-\<close> and \<open>* 60\<close>, so they are modelled as \<open>int\<close>.
  The worker's numbers are double-precision floats: its arithmetic is the arithmetic of
  \<open>int\<close> as long as operands and results are safe integers (\<open>isSafeInteger\<close> below), and
  rounds beyond them. A property that rests on the exact value of a difference or a
  product is stated for safe integers.
\<close>

record timerState =
  currentIntervalTime :: int
  totalTimeRemaining :: int
  intervalsCompleted :: int
  intervalLength :: int
  totalDuration :: int

text \<open>
  What \<open>self.postMessage({ type, state })\<close> sends: the type and a copy of \<open>state\<close> as it
  is at the moment of the call (the message is cloned when it is posted).
\<close>

datatype eventType = TICK | COMPLETED | COUNTDOWN | INTERVAL_END

type_synonym posted = "eventType \<times> timerState"

text \<open>
  The messages the worker's \<open>switch\<close> distinguishes; \<open>CONFIGURE\<close> and \<open>INIT_STATE\<close> carry
  \<open>payload.intervalLength\<close> and \<open>payload.totalDuration\<close>. Any other type matches no case.
\<close>

datatype message =
    CONFIGURE int int
  | INIT_STATE int int
  | START
  | PAUSE
  | RESET
  | OTHER

text \<open>
  Besides the worker's two variables the model carries the part of the platform they talk
  to: \<open>intervals\<close> lists the handles of the repeating timers that are registered (each of
  them calls \<open>tick\<close> once a second), \<open>lastHandle\<close> is the last handle handed out.
  \<open>setInterval\<close> returns a fresh handle, which is a positive integer, so \<open>!timerId\<close>
  holds exactly when \<open>timerId\<close> is \<open>null\<close>, here \<open>None\<close>.
\<close>

record worker =
  timerId :: "nat option"
  state :: timerState
  intervals :: "nat list"
  lastHandle :: nat

definition setInterval :: "worker \<Rightarrow> nat \<times> worker" where
  "setInterval w =
     (let h = Suc (lastHandle w)
      in (h, w\<lparr>intervals := intervals w @ [h], lastHandle := h\<rparr>))"

fun clearInterval :: "nat option \<Rightarrow> worker \<Rightarrow> worker" where
  "clearInterval None w = w"
| "clearInterval (Some h) w = w\<lparr>intervals := removeAll h (intervals w)\<rparr>"

definition worker0 :: worker where
  "worker0 =
     \<lparr>timerId = None,
      state = \<lparr>currentIntervalTime = 0, totalTimeRemaining = 0, intervalsCompleted = 0,
               intervalLength = 60, totalDuration = 20\<rparr>,
      intervals = [],
      lastHandle = 0\<rparr>"

definition tick :: "worker \<Rightarrow> worker \<times> posted list" where
  "tick w =
     (let s1 = (state w)\<lparr>totalTimeRemaining := totalTimeRemaining (state w) - 1\<rparr>
      in if totalTimeRemaining s1 \<le> 0 then
           (let s2 = s1\<lparr>currentIntervalTime := 0, totalTimeRemaining := 0\<rparr>
            in ((clearInterval (timerId w) w)\<lparr>timerId := None, state := s2\<rparr>,
                [(COMPLETED, s2)]))
         else
           (let cd = (if 0 < currentIntervalTime s1 \<and> currentIntervalTime s1 \<le> 3
                      then [(COUNTDOWN, s1)] else []);
                s3 = s1\<lparr>currentIntervalTime := currentIntervalTime s1 - 1\<rparr>
            in if currentIntervalTime s3 < 0 then
                 (let s4 = s3\<lparr>currentIntervalTime := intervalLength s3 - 1,
                               intervalsCompleted := intervalsCompleted s3 + 1\<rparr>
                  in (w\<lparr>state := s4\<rparr>, cd @ [(INTERVAL_END, s4)]))
               else (w\<lparr>state := s3\<rparr>, cd @ [(TICK, s3)])))"

fun onmessage :: "message \<Rightarrow> worker \<Rightarrow> worker \<times> posted list" where
  "onmessage (CONFIGURE il td) w =
     (w\<lparr>state := (state w)\<lparr>intervalLength := il, totalDuration := td\<rparr>\<rparr>, [])"
| "onmessage (INIT_STATE il td) w =
     (w\<lparr>state := (state w)\<lparr>currentIntervalTime := il, totalTimeRemaining := td * 60,
                             intervalsCompleted := 0\<rparr>\<rparr>, [])"
| "onmessage START w =
     (if timerId w = None
      then (let (h, w') = setInterval w in w'\<lparr>timerId := Some h\<rparr>)
      else w, [])"
| "onmessage PAUSE w =
     (if timerId w \<noteq> None
      then (clearInterval (timerId w) w)\<lparr>timerId := None\<rparr>
      else w, [])"
| "onmessage RESET w =
     (let w1 = (if timerId w \<noteq> None
                then (clearInterval (timerId w) w)\<lparr>timerId := None\<rparr>
                else w);
          s = (state w1)\<lparr>currentIntervalTime := intervalLength (state w1),
                          totalTimeRemaining := totalDuration (state w1) * 60,
                          intervalsCompleted := 0\<rparr>
      in (w1\<lparr>state := s\<rparr>, [(TICK, s)]))"
| "onmessage OTHER w = (w, [])"

text \<open>
  What can happen to the worker: a message arrives, or a registered repeating timer
  fires and calls \<open>tick\<close>. Nothing else calls \<open>tick\<close>, so with no timer registered
  \<open>Fire\<close> does nothing.
\<close>

datatype input = Msg message | Fire

fun step :: "input \<Rightarrow> worker \<Rightarrow> worker \<times> posted list" where
  "step (Msg m) w = onmessage m w"
| "step Fire w = (if intervals w = [] then (w, []) else tick w)"

text \<open>A run handles the steps in order and collects everything posted.\<close>

fun run :: "input list \<Rightarrow> worker \<Rightarrow> worker \<times> posted list" where
  "run [] w = (w, [])"
| "run (x # xs) w =
     (let (w1, out1) = step x w; (w2, out2) = run xs w1 in (w2, out1 @ out2))"

subsection \<open>Vocabulary of the properties\<close>

text \<open>The types of what a tick, a message or a run posted, in order.\<close>

definition posts :: "worker \<times> posted list \<Rightarrow> eventType list" where
  "posts r = map fst (snd r)"

text \<open>
  The worker's variable and the platform agree: the one registered repeating timer is
  the one whose handle \<open>timerId\<close> holds, and none is registered when it is \<open>null\<close>.
\<close>

definition timerInv :: "worker \<Rightarrow> bool" where
  "timerInv w = (intervals w = (case timerId w of None \<Rightarrow> [] | Some h \<Rightarrow> [h]))"

definition inTotalRange :: "worker \<Rightarrow> bool" where
  "inTotalRange w =
     (0 \<le> totalTimeRemaining (state w) \<and>
      totalTimeRemaining (state w) \<le> totalDuration (state w) * 60)"

definition inIntervalRange :: "worker \<Rightarrow> bool" where
  "inIntervalRange w =
     (0 \<le> currentIntervalTime (state w) \<and>
      currentIntervalTime (state w) \<le> intervalLength (state w))"

text \<open>
  The view never configures a negative session length: the number field stores
  \<open>Math.max(0, parseInt(value) || 0)\<close> and the slider ranges over 1 to 60.
\<close>

fun configuredNonneg :: "input list \<Rightarrow> bool" where
  "configuredNonneg [] = True"
| "configuredNonneg (Msg (CONFIGURE il td) # xs) = (0 \<le> td \<and> configuredNonneg xs)"
| "configuredNonneg (x # xs) = configuredNonneg xs"

text \<open>
  How the view talks to the worker about the interval length: its effect posts
  \<open>INIT_STATE\<close> and, right after it, \<open>CONFIGURE\<close> with the same payload; any other
  \<open>CONFIGURE\<close> (and an \<open>INIT_STATE\<close> with nothing behind it) repeats the length the
  worker is configured with. \<open>follows il xs\<close> says that \<open>xs\<close> is such a sequence for a
  worker configured with \<open>il\<close>, with every length at least one second.
\<close>

fun follows :: "int \<Rightarrow> input list \<Rightarrow> bool" where
  "follows il [] = True"
| "follows il (Msg (INIT_STATE il1 td1) # Msg (CONFIGURE il2 td2) # xs) =
     (1 \<le> il1 \<and> il2 = il1 \<and> follows il1 xs)"
| "follows il (Msg (INIT_STATE il1 td1) # xs) = (il1 = il \<and> follows il xs)"
| "follows il (Msg (CONFIGURE il2 td2) # xs) = (il2 = il \<and> follows il xs)"
| "follows il (x # xs) = follows il xs"

text \<open>
  \<open>Number.MAX_SAFE_INTEGER\<close> and \<open>Number.isSafeInteger\<close> for a number that is an integer:
  up to this magnitude every integer is a double, and a difference or a product of
  integers whose exact value is within it is computed exactly.
\<close>

definition MAX_SAFE_INTEGER :: int where
  "MAX_SAFE_INTEGER = 9007199254740991"

definition isSafeInteger :: "int \<Rightarrow> bool" where
  "isSafeInteger x = (\<bar>x\<bar> \<le> MAX_SAFE_INTEGER)"

text \<open>
  The same for the session length: \<open>followsTotal td xs\<close> says that in \<open>xs\<close> every
  \<open>INIT_STATE\<close> is followed at once by a \<open>CONFIGURE\<close> with the same \<open>totalDuration\<close>, or
  repeats the one the worker is configured with, \<open>td\<close>, as every other \<open>CONFIGURE\<close> does,
  and that every session length is not negative and gives a safe number of seconds.
\<close>

fun followsTotal :: "int \<Rightarrow> input list \<Rightarrow> bool" where
  "followsTotal td [] = True"
| "followsTotal td (Msg (INIT_STATE il1 td1) # Msg (CONFIGURE il2 td2) # xs) =
     (0 \<le> td1 \<and> isSafeInteger (td1 * 60) \<and> td2 = td1 \<and> followsTotal td1 xs)"
| "followsTotal td (Msg (INIT_STATE il1 td1) # xs) = (td1 = td \<and> followsTotal td xs)"
| "followsTotal td (Msg (CONFIGURE il2 td2) # xs) = (td2 = td \<and> followsTotal td xs)"
| "followsTotal td (x # xs) = followsTotal td xs"

text \<open>
  A session as the view sets it up: \<open>INIT_STATE\<close> and \<open>CONFIGURE\<close> with the settings,
  then \<open>START\<close>. \<open>afterTicks il td n\<close> is the fresh worker after that and \<open>n\<close> ticks,
  \<open>nthTick il td n\<close> is what tick number \<open>n\<close> (counted from 1) posts.
\<close>

definition session :: "int \<Rightarrow> int \<Rightarrow> input list" where
  "session il td = [Msg (INIT_STATE il td), Msg (CONFIGURE il td), Msg START]"

definition afterTicks :: "int \<Rightarrow> int \<Rightarrow> nat \<Rightarrow> worker" where
  "afterTicks il td n = fst (run (session il td @ replicate n Fire) worker0)"

definition nthTick :: "int \<Rightarrow> int \<Rightarrow> nat \<Rightarrow> eventType list" where
  "nthTick il td n = posts (step Fire (afterTicks il td (n - 1)))"

section \<open>The audio service\<close>

text \<open>
  \<open>ensureContextReady\<close> is the same in every copy of the service. One call is modelled,
  running from its first line to its \<open>return\<close> with no other call of the service
  interleaved at its \<open>await\<close>s. The platform is part of the state: \<open>constructs k\<close> is
  what construction number \<open>k\<close> of an \<open>AudioContext\<close> gives (the state of the new
  context, or \<open>None\<close> when the constructor throws), \<open>resumes k\<close> says whether call number
  \<open>k\<close> of \<open>resume()\<close> resolves; \<open>constructed\<close> and \<open>resumed\<close> count the calls made so
  far, and \<open>sounds\<close> records what was started. A context is known by the number of the
  construction that made it. Gains, ramps and volumes are floating point and are left out.
\<close>

datatype audioContextState = Suspended | Running | Closed | Interrupted

record audioContext =
  contextId :: nat
  contextState :: audioContextState

text \<open>
  What can be thrown: by the constructor of a context, by awaiting a \<open>resume()\<close> that
  rejects, and by a method call on \<open>undefined\<close>.
\<close>

datatype error = ConstructorError | ResumeError | TypeError

datatype pool = TickPool | DingPool

datatype oscillatorType = Sine | Triangle

datatype sound = Element pool nat | Oscillator nat oscillatorType nat

record audioService =
  audioCtx :: "audioContext option"
  tickIdx :: nat
  dingIdx :: nat
  IS_MOBILE :: bool
  constructs :: "nat \<Rightarrow> audioContextState option"
  resumes :: "nat \<Rightarrow> bool"
  constructed :: nat
  resumed :: nat
  sounds :: "sound list"

definition POOL_SIZE :: nat where
  "POOL_SIZE = 3"

text \<open>
  The service as its class makes it: no context yet, both pool indices at 0. The
  platform it runs on is given: whether the browser is a mobile one, and what the
  constructions and the calls of \<open>resume()\<close> will give.
\<close>

definition newAudioService ::
    "bool \<Rightarrow> (nat \<Rightarrow> audioContextState option) \<Rightarrow> (nat \<Rightarrow> bool) \<Rightarrow> audioService" where
  "newAudioService mobile cs rs =
     \<lparr>audioCtx = None, tickIdx = 0, dingIdx = 0, IS_MOBILE = mobile,
      constructs = cs, resumes = rs, constructed = 0, resumed = 0, sounds = []\<rparr>"

definition initCtx :: "audioService \<Rightarrow> (error + unit) \<times> audioService" where
  "initCtx a =
     (if (case audioCtx a of None \<Rightarrow> True | Some c \<Rightarrow> contextState c = Closed) then
        (case constructs a (constructed a) of
           None \<Rightarrow> (Inl ConstructorError, a\<lparr>constructed := Suc (constructed a)\<rparr>)
         | Some st \<Rightarrow>
             (Inr (), a\<lparr>audioCtx := Some \<lparr>contextId = constructed a, contextState = st\<rparr>,
                         constructed := Suc (constructed a)\<rparr>))
      else (Inr (), a))"

text \<open>
  \<open>await this.audioCtx.resume()\<close>: the promise resolves, and the context is running, or it
  rejects, the \<open>await\<close> throws, and the context is as it was.
\<close>

definition resume :: "audioService \<Rightarrow> (error + unit) \<times> audioService" where
  "resume a =
     (let a1 = a\<lparr>resumed := Suc (resumed a)\<rparr>
      in if resumes a (resumed a)
         then (Inr (), a1\<lparr>audioCtx := map_option (\<lambda>c. c\<lparr>contextState := Running\<rparr>) (audioCtx a1)\<rparr>)
         else (Inl ResumeError, a1))"

text \<open>
  Each \<open>try\<close> holds one \<open>resume()\<close> and its \<open>catch\<close> takes whatever that throws; what
  \<open>initCtx\<close> throws is not inside a \<open>try\<close> and leaves the function.
\<close>

definition ensureContextReady :: "audioService \<Rightarrow> (error + audioContext option) \<times> audioService" where
  "ensureContextReady a =
     (case initCtx a of
        (Inl e, a1) \<Rightarrow> (Inl e, a1)
      | (Inr u, a1) \<Rightarrow>
          (case audioCtx a1 of
             None \<Rightarrow> (Inr None, a1)
           | Some c \<Rightarrow>
               if contextState c \<noteq> Running then
                 (case resume a1 of
                    (Inr u, a2) \<Rightarrow> (Inr (audioCtx a2), a2)
                  | (Inl e, a2) \<Rightarrow>
                      (case initCtx (a2\<lparr>audioCtx := None\<rparr>) of
                         (Inl e, a3) \<Rightarrow> (Inl e, a3)
                       | (Inr u, a3) \<Rightarrow>
                           (case audioCtx a3 of
                              None \<Rightarrow> (Inr None, a3)
                            | Some c' \<Rightarrow>
                                (case resume a3 of
                                   (Inr u, a4) \<Rightarrow> (Inr (audioCtx a4), a4)
                                 | (Inl e, a4) \<Rightarrow> (Inr None, a4)))))
               else (Inr (audioCtx a1), a1)))"

text \<open>
  \<open>playFromPool\<close> (the copy of the service with pools of audio elements): the element is
  read at the pool's index, the index moves on, the element is played, and a failure of
  \<open>play()\<close> is caught. An index outside the pool would read \<open>undefined\<close>, and
  \<open>a.pause()\<close> would then throw a \<open>TypeError\<close>.
\<close>

definition playFromPool :: "pool \<Rightarrow> audioService \<Rightarrow> (error + unit) \<times> audioService" where
  "playFromPool p a =
     (let i = (case p of TickPool \<Rightarrow> tickIdx a | DingPool \<Rightarrow> dingIdx a);
          a1 = (case p of
                  TickPool \<Rightarrow> a\<lparr>tickIdx := (i + 1) mod POOL_SIZE\<rparr>
                | DingPool \<Rightarrow> a\<lparr>dingIdx := (i + 1) mod POOL_SIZE\<rparr>)
      in if i < POOL_SIZE
         then (Inr (), a1\<lparr>sounds := sounds a1 @ [Element p i]\<rparr>)
         else (Inl TypeError, a1))"



text \<open>
  \<open>playTick\<close> and \<open>playDing\<close> of the copy with pools: the audio element is played when
  there is no context or on a mobile browser, the oscillators when there is a context.
\<close>

definition playTick_pool :: "audioService \<Rightarrow> (error + unit) \<times> audioService" where
  "playTick_pool a =
     (case ensureContextReady a of
        (Inl e, a1) \<Rightarrow> (Inl e, a1)
      | (Inr ctx, a1) \<Rightarrow>
          (case (if ctx = None \<or> IS_MOBILE a1 then playFromPool TickPool a1 else (Inr (), a1)) of
             (Inl e, a2) \<Rightarrow> (Inl e, a2)
           | (Inr u, a2) \<Rightarrow>
               (case ctx of
                  None \<Rightarrow> (Inr (), a2)
                | Some c \<Rightarrow>
                    (Inr (), a2\<lparr>sounds := sounds a2 @ [Oscillator (contextId c) Sine 660]\<rparr>))))"

definition playDing_pool :: "audioService \<Rightarrow> (error + unit) \<times> audioService" where
  "playDing_pool a =
     (case ensureContextReady a of
        (Inl e, a1) \<Rightarrow> (Inl e, a1)
      | (Inr ctx, a1) \<Rightarrow>
          (case (if ctx = None \<or> IS_MOBILE a1 then playFromPool DingPool a1 else (Inr (), a1)) of
             (Inl e, a2) \<Rightarrow> (Inl e, a2)
           | (Inr u, a2) \<Rightarrow>
               (case ctx of
                  None \<Rightarrow> (Inr (), a2)
                | Some c \<Rightarrow>
                    (Inr (), a2\<lparr>sounds := sounds a2 @
                                  [Oscillator (contextId c) Triangle 880,
                                   Oscillator (contextId c) Sine 1760]\<rparr>))))"

section \<open>Properties of one tick\<close>

lemma tick_total:
  "totalTimeRemaining (state (fst (tick w))) = max 0 (totalTimeRemaining (state w) - 1)"
  by (simp add: tick_def Let_def)

lemma tick_config:
  "totalDuration (state (fst (tick w))) = totalDuration (state w)"
  "intervalLength (state (fst (tick w))) = intervalLength (state w)"
  by (simp_all add: tick_def Let_def)

lemma tick_posted_nonneg:
  "(t, s) \<in> set (snd (tick w)) \<Longrightarrow> 0 \<le> totalTimeRemaining s"
  by (auto simp: tick_def Let_def split: if_splits)

lemma tick_stops:
  "totalTimeRemaining (state w) - 1 \<le> 0 \<Longrightarrow> timerInv w \<Longrightarrow> intervals (fst (tick w)) = []"
  by (cases "timerId w") (simp_all add: tick_def Let_def timerInv_def)

lemma tick_timerInv: "timerInv w \<Longrightarrow> timerInv (fst (tick w))"
  by (cases "timerId w") (simp_all add: tick_def Let_def timerInv_def)

lemma tick_inIntervalRange:
  "1 \<le> intervalLength (state w) \<Longrightarrow> inIntervalRange w \<Longrightarrow> inIntervalRange (fst (tick w))"
  by (simp add: tick_def Let_def inIntervalRange_def)

lemma tick_depends_on_state:
  "state w = state v \<Longrightarrow>
   state (fst (tick w)) = state (fst (tick v)) \<and> snd (tick w) = snd (tick v)"
  by (simp add: tick_def Let_def)

section \<open>Messages, steps and runs\<close>

lemma run_Cons_fst: "fst (run (x # xs) w) = fst (run xs (fst (step x w)))"
  by (simp add: split_beta)

lemma run_Cons_snd: "snd (run (x # xs) w) = snd (step x w) @ snd (run xs (fst (step x w)))"
  by (simp add: split_beta)

lemma run_append_fst: "fst (run (xs @ ys) w) = fst (run ys (fst (run xs w)))"
  by (induction xs arbitrary: w) (simp_all add: split_beta)

lemma onmessage_timerInv: "timerInv w \<Longrightarrow> timerInv (fst (onmessage m w))"
  by (cases m; cases "timerId w") (simp_all add: timerInv_def setInterval_def Let_def)

lemma step_timerInv: "timerInv w \<Longrightarrow> timerInv (fst (step x w))"
  by (cases x) (simp_all add: onmessage_timerInv tick_timerInv)

lemma run_timerInv: "timerInv w \<Longrightarrow> timerInv (fst (run xs w))"
  by (induction xs arbitrary: w) (simp_all add: split_beta step_timerInv)

lemma timerInv_worker0: "timerInv worker0"
  by (simp add: timerInv_def worker0_def)

lemma timerInv_length: "timerInv w \<Longrightarrow> length (intervals w) \<le> 1"
  by (cases "timerId w") (simp_all add: timerInv_def)

lemma step_posted_nonneg:
  "0 \<le> totalDuration (state w) \<Longrightarrow> (t, s) \<in> set (snd (step x w)) \<Longrightarrow>
   0 \<le> totalTimeRemaining s"
proof (cases x)
  case (Msg m)
  assume "0 \<le> totalDuration (state w)" "(t, s) \<in> set (snd (step x w))"
  with Msg show ?thesis by (cases m) (auto simp: Let_def)
next
  case Fire
  assume "(t, s) \<in> set (snd (step x w))"
  with Fire show ?thesis by (auto dest: tick_posted_nonneg split: if_splits)
qed

lemma configuredNonneg_Cons:
  "configuredNonneg (x # xs) = (configuredNonneg [x] \<and> configuredNonneg xs)"
  by (induction "x # xs" rule: configuredNonneg.induct) auto

lemma step_keeps_nonneg:
  "0 \<le> totalDuration (state w) \<Longrightarrow> configuredNonneg [x] \<Longrightarrow>
   0 \<le> totalDuration (state (fst (step x w)))"
proof (cases x)
  case (Msg m)
  assume "0 \<le> totalDuration (state w)" "configuredNonneg [x]"
  with Msg show ?thesis
    by (cases m) (auto simp: Let_def setInterval_def split: option.splits)
next
  case Fire
  assume "0 \<le> totalDuration (state w)"
  with Fire show ?thesis by (simp add: tick_config)
qed

lemma run_posted_nonneg:
  "0 \<le> totalDuration (state w) \<Longrightarrow> configuredNonneg xs \<Longrightarrow>
   (t, s) \<in> set (snd (run xs w)) \<Longrightarrow> 0 \<le> totalTimeRemaining s"
proof (induction xs arbitrary: w)
  case Nil
  then show ?case by simp
next
  case (Cons x xs)
  from Cons.prems(2) have x: "configuredNonneg [x]" and xs: "configuredNonneg xs"
    using configuredNonneg_Cons by blast+
  have w1: "0 \<le> totalDuration (state (fst (step x w)))"
    using Cons.prems(1) x by (rule step_keeps_nonneg)
  from Cons.prems(3)
  have "(t, s) \<in> set (snd (step x w)) \<or> (t, s) \<in> set (snd (run xs (fst (step x w))))"
    unfolding run_Cons_snd by auto
  then show ?case
    using step_posted_nonneg[OF Cons.prems(1)] Cons.IH[OF w1 xs] by blast
qed

section \<open>Message sequences that keep payload and configuration in step\<close>

lemma step_range:
  "inIntervalRange w \<Longrightarrow> 1 \<le> intervalLength (state w) \<Longrightarrow>
   x = Fire \<or> x = Msg START \<or> x = Msg PAUSE \<or> x = Msg RESET \<or> x = Msg OTHER \<or>
   x = Msg (CONFIGURE (intervalLength (state w)) td) \<or>
   x = Msg (INIT_STATE (intervalLength (state w)) td) \<Longrightarrow>
   inIntervalRange (fst (step x w)) \<and>
   intervalLength (state (fst (step x w))) = intervalLength (state w)"
  using tick_inIntervalRange[of w]
  by (auto simp: inIntervalRange_def setInterval_def Let_def tick_config
      split: option.splits prod.splits)

lemma pair_range:
  "0 \<le> il \<Longrightarrow>
   inIntervalRange (fst (onmessage (CONFIGURE il td2) (fst (onmessage (INIT_STATE il td1) w)))) \<and>
   intervalLength (state (fst (onmessage (CONFIGURE il td2) (fst (onmessage (INIT_STATE il td1) w))))) = il"
  by (simp add: inIntervalRange_def)

lemma follows_range:
  "follows il xs \<Longrightarrow> 1 \<le> il \<Longrightarrow> intervalLength (state w) = il \<Longrightarrow> inIntervalRange w \<Longrightarrow>
   inIntervalRange (fst (run xs w)) \<and> 1 \<le> intervalLength (state (fst (run xs w)))"
proof (induction il xs arbitrary: w rule: follows.induct)
  case (1 il)
  then show ?case by simp
next
  case (2 il il1 td1 il2 td2 xs)
  let ?v = "fst (onmessage (CONFIGURE il1 td2) (fst (onmessage (INIT_STATE il1 td1) w)))"
  from "2.prems"(1) have f: "1 \<le> il1" "il2 = il1" "follows il1 xs" by simp_all
  have v: "inIntervalRange ?v" "intervalLength (state ?v) = il1"
    using pair_range[of il1 td2 td1 w] f(1) by simp_all
  have "fst (run (Msg (INIT_STATE il1 td1) # Msg (CONFIGURE il2 td2) # xs) w) = fst (run xs ?v)"
    by (simp add: run_Cons_fst f(2) del: run.simps onmessage.simps)
  then show ?case
    using "2.IH"[OF f(3) f(1) v(2) v(1)] by simp
qed (insert step_range, auto simp: run_Cons_fst simp del: run.simps step.simps)

lemma step_total_range:
  "inTotalRange w \<Longrightarrow> 0 \<le> totalDuration (state w) \<Longrightarrow>
   x = Fire \<or> x = Msg START \<or> x = Msg PAUSE \<or> x = Msg RESET \<or> x = Msg OTHER \<or>
   x = Msg (CONFIGURE il (totalDuration (state w))) \<or>
   x = Msg (INIT_STATE il (totalDuration (state w))) \<Longrightarrow>
   inTotalRange (fst (step x w)) \<and>
   totalDuration (state (fst (step x w))) = totalDuration (state w)"
  by (auto simp: inTotalRange_def setInterval_def Let_def tick_config tick_total
      split: option.splits prod.splits)

lemma pair_total_range:
  "0 \<le> td \<Longrightarrow>
   inTotalRange (fst (onmessage (CONFIGURE il2 td) (fst (onmessage (INIT_STATE il1 td) w)))) \<and>
   totalDuration (state (fst (onmessage (CONFIGURE il2 td) (fst (onmessage (INIT_STATE il1 td) w))))) = td"
  by (simp add: inTotalRange_def)

lemma followsTotal_range:
  "followsTotal td xs \<Longrightarrow> 0 \<le> td \<Longrightarrow> isSafeInteger (td * 60) \<Longrightarrow>
   totalDuration (state w) = td \<Longrightarrow> inTotalRange w \<Longrightarrow>
   inTotalRange (fst (run xs w)) \<and> 0 \<le> totalDuration (state (fst (run xs w))) \<and>
   isSafeInteger (totalDuration (state (fst (run xs w))) * 60)"
proof (induction td xs arbitrary: w rule: followsTotal.induct)
  case (1 td)
  then show ?case by simp
next
  case (2 td il1 td1 il2 td2 xs)
  let ?v = "fst (onmessage (CONFIGURE il2 td1) (fst (onmessage (INIT_STATE il1 td1) w)))"
  from "2.prems"(1) have f: "0 \<le> td1" "isSafeInteger (td1 * 60)" "td2 = td1" "followsTotal td1 xs"
    by simp_all
  have v: "inTotalRange ?v" "totalDuration (state ?v) = td1"
    using pair_total_range[of td1 il2 il1 w] f(1) by simp_all
  have "fst (run (Msg (INIT_STATE il1 td1) # Msg (CONFIGURE il2 td2) # xs) w) = fst (run xs ?v)"
    by (simp add: run_Cons_fst f(3) del: run.simps onmessage.simps)
  then show ?case
    using "2.IH"[OF f(4) f(1) f(2) v(2) v(1)] by simp
qed (insert step_total_range, auto simp: run_Cons_fst simp del: run.simps step.simps)

lemma inTotalRange_safe:
  "inTotalRange w \<Longrightarrow> isSafeInteger (totalDuration (state w) * 60) \<Longrightarrow>
   isSafeInteger (totalTimeRemaining (state w))"
  by (simp add: inTotalRange_def isSafeInteger_def)


section \<open>The state of a session after a number of ticks\<close>

lemma afterTicks_0:
  "afterTicks il td 0 =
     \<lparr>timerId = Some 1,
      state = \<lparr>currentIntervalTime = il, totalTimeRemaining = td * 60,
               intervalsCompleted = 0, intervalLength = il, totalDuration = td\<rparr>,
      intervals = [1], lastHandle = 1\<rparr>"
  by (simp add: afterTicks_def session_def worker0_def setInterval_def split_beta)

lemma afterTicks_Suc: "afterTicks il td (Suc n) = fst (step Fire (afterTicks il td n))"
proof -
  have "session il td @ replicate (Suc n) Fire = (session il td @ replicate n Fire) @ [Fire]"
    by (simp add: replicate_append_same)
  then have "afterTicks il td (Suc n) = fst (run [Fire] (afterTicks il td n))"
    by (simp only: afterTicks_def run_append_fst)
  then show ?thesis
    by (simp add: split_beta)
qed

lemma afterTicks_state:
  "1 \<le> L \<Longrightarrow> int n < td * 60 \<Longrightarrow>
   afterTicks (int L) td n =
     \<lparr>timerId = Some 1,
      state = \<lparr>currentIntervalTime = (if n = 0 then int L else int (L - 1 - (n - 1) mod L)),
               totalTimeRemaining = td * 60 - int n,
               intervalsCompleted = int ((n - 1) div L),
               intervalLength = int L, totalDuration = td\<rparr>,
      intervals = [1], lastHandle = 1\<rparr>"
proof (induction n)
  case 0
  then show ?case by (simp add: afterTicks_0)
next
  case (Suc n)
  then have IH: "afterTicks (int L) td n =
     \<lparr>timerId = Some 1,
      state = \<lparr>currentIntervalTime = (if n = 0 then int L else int (L - 1 - (n - 1) mod L)),
               totalTimeRemaining = td * 60 - int n,
               intervalsCompleted = int ((n - 1) div L),
               intervalLength = int L, totalDuration = td\<rparr>,
      intervals = [1], lastHandle = 1\<rparr>"
    by simp
  show ?case
  proof (cases n)
    case 0
    with Suc.prems IH show ?thesis
      by (simp add: afterTicks_Suc tick_def Let_def)
  next
    case n: (Suc m)
    have r: "m mod L < L" using Suc.prems(1) by simp
    show ?thesis
    proof (cases "Suc (m mod L) = L")
      case True
      then have "L - 1 - m mod L = 0" by simp
      with True n Suc.prems IH show ?thesis
        by (simp add: afterTicks_Suc tick_def Let_def mod_Suc div_Suc)
    next
      case False
      with r have "int (L - 1 - m mod L) - 1 = int (L - 1 - Suc (m mod L))"
        "0 < L - 1 - m mod L" by linarith+
      with False n Suc.prems IH show ?thesis
        by (simp add: afterTicks_Suc tick_def Let_def mod_Suc div_Suc)
    qed
  qed
qed


lemma tick_posts_interval_end:
  "INTERVAL_END \<in> set (posts (tick w)) \<longleftrightarrow>
     (0 < totalTimeRemaining (state w) - 1 \<and> currentIntervalTime (state w) - 1 < 0)"
  by (auto simp: tick_def Let_def posts_def)

lemma rollover_ticks:
  assumes "1 \<le> L"
  shows "(p \<noteq> 0 \<and> (p - 1) mod L = L - 1) \<longleftrightarrow> (\<exists>k. Suc p = L + 1 + k * L)"
proof
  assume a: "p \<noteq> 0 \<and> (p - 1) mod L = L - 1"
  then obtain q where q: "p = Suc q" by (cases p) auto
  with a assms have "Suc q mod L = 0" by (simp add: mod_Suc)
  then have "L dvd p" using q by (simp add: dvd_eq_mod_eq_0)
  then obtain j where j: "p = L * j" by (auto simp: dvd_def)
  with q have "j \<noteq> 0" by (cases j) auto
  then obtain k where "j = Suc k" by (cases j) auto
  with j have "Suc p = L + 1 + k * L" by (simp add: algebra_simps)
  then show "\<exists>k. Suc p = L + 1 + k * L" ..
next
  assume "\<exists>k. Suc p = L + 1 + k * L"
  then obtain k where k: "p = L + k * L" by auto
  with assms have p: "p \<noteq> 0" by auto
  then obtain q where q: "p = Suc q" by (cases p) auto
  from k have "p mod L = 0" by simp
  with q assms have "q mod L = L - 1"
    by (auto simp: mod_Suc split: if_splits)
  with p q show "p \<noteq> 0 \<and> (p - 1) mod L = L - 1" by simp
qed

lemma nthTick_interval_end:
  assumes "1 \<le> L" "1 \<le> n" "int n < td * 60"
  shows "INTERVAL_END \<in> set (nthTick (int L) td n) \<longleftrightarrow> (\<exists>k. n = L + 1 + k * L)"
proof -
  obtain p where p: "n = Suc p" using assms(2) by (cases n) auto
  with assms(3) have lt: "int p < td * 60" by simp
  have m: "(p - 1) mod L < L" using assms(1) by simp
  have "INTERVAL_END \<in> set (nthTick (int L) td n) \<longleftrightarrow> (p \<noteq> 0 \<and> (p - 1) mod L = L - 1)"
    using assms(1,3) p m
    by (auto simp: nthTick_def afterTicks_state[OF assms(1) lt] tick_posts_interval_end)
  then show ?thesis
    using rollover_ticks[OF assms(1), of p] p by simp
qed


section \<open>Ticks depend on the state only\<close>

lemma tick_intervals:
  "timerInv w \<Longrightarrow>
   intervals (fst (tick w)) =
     (if totalTimeRemaining (state w) - 1 \<le> 0 then [] else intervals w)"
  by (cases "timerId w") (simp_all add: tick_def Let_def timerInv_def)

lemma fire_depends_on_state:
  assumes "state w = state v" "intervals w = [] \<longleftrightarrow> intervals v = []"
    "timerInv w" "timerInv v"
  shows "state (fst (step Fire w)) = state (fst (step Fire v)) \<and>
         snd (step Fire w) = snd (step Fire v) \<and>
         (intervals (fst (step Fire w)) = [] \<longleftrightarrow> intervals (fst (step Fire v)) = [])"
  using assms tick_depends_on_state[OF assms(1)]
  by (simp add: tick_intervals)

lemma fires_depend_on_state:
  "state w = state v \<Longrightarrow> (intervals w = [] \<longleftrightarrow> intervals v = []) \<Longrightarrow>
   timerInv w \<Longrightarrow> timerInv v \<Longrightarrow>
   state (fst (run (replicate n Fire) w)) = state (fst (run (replicate n Fire) v)) \<and>
   snd (run (replicate n Fire) w) = snd (run (replicate n Fire) v)"
proof (induction n arbitrary: w v)
  case 0
  then show ?case by simp
next
  case (Suc n)
  have one: "state (fst (step Fire w)) = state (fst (step Fire v))"
    "snd (step Fire w) = snd (step Fire v)"
    "intervals (fst (step Fire w)) = [] \<longleftrightarrow> intervals (fst (step Fire v)) = []"
    using fire_depends_on_state[OF Suc.prems] by blast+
  have inv: "timerInv (fst (step Fire w))" "timerInv (fst (step Fire v))"
    using Suc.prems(3,4) by (simp_all only: step_timerInv)
  show ?case
    using Suc.IH[OF one(1) one(3) inv] one(2)
    by (simp add: run_Cons_fst run_Cons_snd del: run.simps step.simps)
qed

lemma pause_start:
  assumes "timerInv w"
  shows "state (fst (run [Msg PAUSE, Msg START] w)) = state w"
    "intervals (fst (run [Msg PAUSE, Msg START] w)) \<noteq> []"
    "timerInv (fst (run [Msg PAUSE, Msg START] w))"
    "snd (run [Msg PAUSE, Msg START] w) = []"
  using assms
  by (cases "timerId w"; simp add: timerInv_def setInterval_def split_beta)+

lemma run_append_snd:
  "snd (run (xs @ ys) w) = snd (run xs w) @ snd (run ys (fst (run xs w)))"
  by (induction xs arbitrary: w) (simp_all add: split_beta)

section \<open>The claims about the worker\<close>

text \<open>
  Claim C1. A tick whose decrement brings \<open>totalTimeRemaining\<close> to zero or below sets
  \<open>totalTimeRemaining\<close> and \<open>currentIntervalTime\<close> to 0, posts exactly one message,
  \<open>COMPLETED\<close> with that state, and stops the ticking loop: \<open>timerId\<close> is \<open>null\<close> and
  the repeating timer it named is no longer registered. Whatever a tick posts carries a
  \<open>totalTimeRemaining\<close> that is not negative; and so does whatever the worker posts from
  its start, over any messages and ticks, the session length being configured as the
  view configures it, never negative (\<open>RESET\<close> posts the configured length).
\<close>

theorem tick_completion_posts_nonneg:
  "(totalTimeRemaining (state w) - 1 \<le> 0 \<longrightarrow>
      totalTimeRemaining (state (fst (tick w))) = 0 \<and>
      currentIntervalTime (state (fst (tick w))) = 0 \<and>
      snd (tick w) = [(COMPLETED, state (fst (tick w)))] \<and>
      timerId (fst (tick w)) = None \<and>
      (timerInv w \<longrightarrow> intervals (fst (tick w)) = [])) \<and>
   (\<forall>(t, s) \<in> set (snd (tick w)). 0 \<le> totalTimeRemaining s) \<and>
   (configuredNonneg xs \<longrightarrow>
      (\<forall>(t, s) \<in> set (snd (run xs worker0)). 0 \<le> totalTimeRemaining s))"
proof -
  have a: "totalTimeRemaining (state w) - 1 \<le> 0 \<Longrightarrow>
      totalTimeRemaining (state (fst (tick w))) = 0 \<and>
      currentIntervalTime (state (fst (tick w))) = 0 \<and>
      snd (tick w) = [(COMPLETED, state (fst (tick w)))] \<and>
      timerId (fst (tick w)) = None"
    by (simp add: tick_def Let_def)
  have b: "0 \<le> totalDuration (state worker0)"
    by (simp add: worker0_def)
  show ?thesis
    using a tick_stops[of w] tick_posted_nonneg[of _ _ w] run_posted_nonneg[OF b, of xs]
    by blast
qed

theorem tick_completion_posts_nonneg_witness:
  "totalTimeRemaining (state (fst (run [Msg START] worker0))) - 1 \<le> 0 \<and>
   timerInv (fst (run [Msg START] worker0)) \<and>
   intervals (fst (run [Msg START] worker0)) = [1] \<and>
   intervals (fst (tick (fst (run [Msg START] worker0)))) = [] \<and>
   posts (tick (fst (run [Msg START] worker0))) = [COMPLETED] \<and>
   configuredNonneg [Msg (CONFIGURE 60 1), Msg RESET, Msg START, Fire] \<and>
   map (\<lambda>(t, s). totalTimeRemaining s)
     (snd (run [Msg (CONFIGURE 60 1), Msg RESET, Msg START, Fire] worker0)) = [60, 59]"
  using tick_completion_posts_nonneg
    [of "fst (run [Msg START] worker0)" "[Msg (CONFIGURE 60 1), Msg RESET, Msg START, Fire]"]
  by (simp add: worker0_def setInterval_def timerInv_def tick_def posts_def Let_def)

text \<open>
  Claim C2, as stated, fails: \<open>INIT_STATE\<close> takes the session length from its payload,
  not from the worker's configuration. The fresh worker is configured with 20 minutes;
  when the view's session length becomes 30, its effect posts \<open>INIT_STATE\<close> first, and
  the worker then holds 1800 seconds against a configured \<open>totalDuration * 60\<close> of 1200.
\<close>

theorem init_state_exceeds_configured_total:
  "totalTimeRemaining (state (fst (onmessage (INIT_STATE 60 30) worker0))) = 1800 \<and>
   totalDuration (state (fst (onmessage (INIT_STATE 60 30) worker0))) * 60 = 1200 \<and>
   \<not> inTotalRange (fst (onmessage (INIT_STATE 60 30) worker0))"
  by (simp add: worker0_def inTotalRange_def)

text \<open>
  Claim C2, amended. While \<open>totalTimeRemaining\<close> is a safe integer, every tick takes
  exactly one off it, stopping at zero, keeps it within \<open>[0, totalDuration * 60]\<close> and
  never increases it when it is not negative. \<open>RESET\<close> puts it within that range when
  the configured \<open>totalDuration\<close> is not negative and its 60-fold is a safe integer.
  \<open>INIT_STATE\<close> sets it to 60 times the \<open>totalDuration\<close> of its payload when that is a
  safe integer, which is within the range once the \<open>CONFIGURE\<close> with the same payload,
  which the view posts right after it, is handled. And in every state reached from the
  initial one by messages and ticks in which every \<open>INIT_STATE\<close> is followed at once by a
  \<open>CONFIGURE\<close> with the same \<open>totalDuration\<close> or repeats the configured one, every other
  \<open>CONFIGURE\<close> repeats the configured one, and every session length is not negative and
  safe in seconds, \<open>totalTimeRemaining\<close> lies within \<open>[0, totalDuration * 60]\<close> and is a
  safe integer.
\<close>

theorem total_decrements_and_stays_in_range:
  "(isSafeInteger (totalTimeRemaining (state w)) \<longrightarrow>
      totalTimeRemaining (state (fst (tick w))) = max 0 (totalTimeRemaining (state w) - 1) \<and>
      (inTotalRange w \<longrightarrow> inTotalRange (fst (tick w))) \<and>
      (0 \<le> totalTimeRemaining (state w) \<longrightarrow>
         totalTimeRemaining (state (fst (tick w))) \<le> totalTimeRemaining (state w))) \<and>
   (0 \<le> totalDuration (state w) \<and> isSafeInteger (totalDuration (state w) * 60) \<longrightarrow>
      inTotalRange (fst (onmessage RESET w))) \<and>
   (isSafeInteger (td * 60) \<longrightarrow>
      totalTimeRemaining (state (fst (onmessage (INIT_STATE il td) w))) = td * 60 \<and>
      (0 \<le> td \<longrightarrow>
         inTotalRange
           (fst (onmessage (CONFIGURE il td) (fst (onmessage (INIT_STATE il td) w)))))) \<and>
   (followsTotal 20 xs \<longrightarrow>
      inTotalRange (fst (run xs worker0)) \<and>
      isSafeInteger (totalTimeRemaining (state (fst (run xs worker0)))))"
proof -
  have one: "totalTimeRemaining (state (fst (tick w))) = max 0 (totalTimeRemaining (state w) - 1) \<and>
      (inTotalRange w \<longrightarrow> inTotalRange (fst (tick w))) \<and>
      (0 \<le> totalTimeRemaining (state w) \<longrightarrow>
         totalTimeRemaining (state (fst (tick w))) \<le> totalTimeRemaining (state w))"
    by (auto simp: inTotalRange_def tick_total tick_config)
  have msgs: "(0 \<le> totalDuration (state w) \<longrightarrow> inTotalRange (fst (onmessage RESET w))) \<and>
      totalTimeRemaining (state (fst (onmessage (INIT_STATE il td) w))) = td * 60 \<and>
      (0 \<le> td \<longrightarrow>
         inTotalRange
           (fst (onmessage (CONFIGURE il td) (fst (onmessage (INIT_STATE il td) w)))))"
    by (auto simp: inTotalRange_def Let_def)
  have runs: "followsTotal 20 xs \<Longrightarrow>
      inTotalRange (fst (run xs worker0)) \<and>
      isSafeInteger (totalTimeRemaining (state (fst (run xs worker0))))"
  proof -
    assume f: "followsTotal 20 xs"
    have w0: "(0::int) \<le> 20" "isSafeInteger (20 * 60)" "totalDuration (state worker0) = 20"
      "inTotalRange worker0"
      by (simp_all add: worker0_def inTotalRange_def isSafeInteger_def MAX_SAFE_INTEGER_def)
    from followsTotal_range[OF f w0] show ?thesis
      using inTotalRange_safe by blast
  qed
  show ?thesis
    using one msgs runs by blast
qed

theorem total_decrements_and_stays_in_range_witness:
  "isSafeInteger (totalTimeRemaining (state (afterTicks 60 20 60))) \<and>
   inTotalRange (afterTicks 60 20 60) \<and>
   totalTimeRemaining (state (afterTicks 60 20 60)) = 1140 \<and>
   totalTimeRemaining (state (fst (tick (afterTicks 60 20 60)))) = 1139 \<and>
   inTotalRange (fst (tick (afterTicks 60 20 60))) \<and>
   0 \<le> totalDuration (state (afterTicks 60 20 60)) \<and>
   isSafeInteger (totalDuration (state (afterTicks 60 20 60)) * 60) \<and>
   inTotalRange (fst (onmessage RESET (afterTicks 60 20 60))) \<and>
   isSafeInteger (30 * 60) \<and> (0::int) \<le> 30 \<and>
   totalTimeRemaining (state (fst (onmessage (INIT_STATE 60 30) (afterTicks 60 20 60)))) = 1800 \<and>
   inTotalRange
     (fst (onmessage (CONFIGURE 60 30)
        (fst (onmessage (INIT_STATE 60 30) (afterTicks 60 20 60))))) \<and>
   followsTotal 20 (session 60 20 @ replicate 60 Fire) \<and>
   inTotalRange (fst (run (session 60 20 @ replicate 60 Fire) worker0))"
proof -
  have s: "state (afterTicks 60 20 60) =
      \<lparr>currentIntervalTime = 0, totalTimeRemaining = 1140, intervalsCompleted = 0,
       intervalLength = 60, totalDuration = 20\<rparr>"
    by code_simp
  have f: "followsTotal 20 (session 60 20 @ replicate 60 Fire)"
    by code_simp
  have r: "fst (run (session 60 20 @ replicate 60 Fire) worker0) = afterTicks 60 20 60"
    by (simp only: afterTicks_def)
  show ?thesis
    using total_decrements_and_stays_in_range
      [of "afterTicks 60 20 60" 30 60 "session 60 20 @ replicate 60 Fire"] f
    by (simp add: s r inTotalRange_def isSafeInteger_def MAX_SAFE_INTEGER_def
        del: run.simps replicate.simps)
qed

text \<open>
  Claim C3, as stated, fails: on a rollover the worker wraps \<open>currentIntervalTime\<close> to
  one less than the configured interval length. In a session of 60-second intervals the
  tick after the 60th finds 0, rolls over and leaves 59, not 60.
\<close>

theorem rollover_is_not_interval_length:
  "currentIntervalTime (state (afterTicks 60 20 60)) - 1 < 0 \<and>
   posts (tick (afterTicks 60 20 60)) = [INTERVAL_END] \<and>
   currentIntervalTime (state (fst (tick (afterTicks 60 20 60)))) = 59 \<and>
   intervalLength (state (fst (tick (afterTicks 60 20 60)))) = 60"
  by code_simp

text \<open>
  Claim C3, amended. On every tick that does not complete the session and on which the
  interval time rolls over (it is below zero after the decrement), \<open>currentIntervalTime\<close>
  is wrapped to the configured interval length minus one.
\<close>

theorem rollover_wraps_to_length_minus_one:
  "0 < totalTimeRemaining (state w) - 1 \<Longrightarrow> currentIntervalTime (state w) - 1 < 0 \<Longrightarrow>
   currentIntervalTime (state (fst (tick w))) = intervalLength (state w) - 1"
  by (simp add: tick_def Let_def)

theorem rollover_wraps_to_length_minus_one_witness:
  "0 < totalTimeRemaining (state (afterTicks 5 1 5)) - 1 \<and>
   currentIntervalTime (state (afterTicks 5 1 5)) - 1 < 0 \<and>
   intervalLength (state (afterTicks 5 1 5)) = 5 \<and>
   currentIntervalTime (state (fst (tick (afterTicks 5 1 5)))) = 4"
proof -
  have s: "state (afterTicks 5 1 5) =
      \<lparr>currentIntervalTime = 0, totalTimeRemaining = 55, intervalsCompleted = 0,
       intervalLength = 5, totalDuration = 1\<rparr>"
    by code_simp
  show ?thesis
    using rollover_wraps_to_length_minus_one [of "afterTicks 5 1 5"]
    by (simp add: s)
qed

text \<open>
  Claim C4. A tick that posts \<open>INTERVAL_END\<close> adds exactly one to \<open>intervalsCompleted\<close>;
  every other tick leaves it as it was, the tick that completes the session among them.
\<close>

theorem intervals_completed_counts_interval_ends:
  "(INTERVAL_END \<in> set (posts (tick w)) \<longrightarrow>
      intervalsCompleted (state (fst (tick w))) = intervalsCompleted (state w) + 1) \<and>
   (INTERVAL_END \<notin> set (posts (tick w)) \<longrightarrow>
      intervalsCompleted (state (fst (tick w))) = intervalsCompleted (state w)) \<and>
   (COMPLETED \<in> set (posts (tick w)) \<longrightarrow>
      INTERVAL_END \<notin> set (posts (tick w)) \<and>
      intervalsCompleted (state (fst (tick w))) = intervalsCompleted (state w))"
  by (auto simp add: tick_def Let_def posts_def)

theorem intervals_completed_counts_interval_ends_witness:
  "INTERVAL_END \<in> set (posts (tick (afterTicks 5 1 5))) \<and>
   intervalsCompleted (state (afterTicks 5 1 5)) = 0 \<and>
   intervalsCompleted (state (fst (tick (afterTicks 5 1 5)))) = 1 \<and>
   INTERVAL_END \<notin> set (posts (tick (afterTicks 5 1 6))) \<and>
   intervalsCompleted (state (afterTicks 5 1 6)) = 1 \<and>
   intervalsCompleted (state (fst (tick (afterTicks 5 1 6)))) = 1 \<and>
   COMPLETED \<in> set (posts (tick (afterTicks 5 1 59))) \<and>
   intervalsCompleted (state (afterTicks 5 1 59)) = 11 \<and>
   intervalsCompleted (state (fst (tick (afterTicks 5 1 59)))) = 11"
proof -
  have s: "posts (tick (afterTicks 5 1 5)) = [INTERVAL_END]"
    "intervalsCompleted (state (afterTicks 5 1 5)) = 0"
    "posts (tick (afterTicks 5 1 6)) = [TICK]"
    "intervalsCompleted (state (afterTicks 5 1 6)) = 1"
    "posts (tick (afterTicks 5 1 59)) = [COMPLETED]"
    "intervalsCompleted (state (afterTicks 5 1 59)) = 11"
    by code_simp+
  show ?thesis
    using intervals_completed_counts_interval_ends [of "afterTicks 5 1 5"]
      intervals_completed_counts_interval_ends [of "afterTicks 5 1 6"]
      intervals_completed_counts_interval_ends [of "afterTicks 5 1 59"]
    by (simp add: s)
qed

text \<open>
  Claim C5, as stated, fails on the tick that completes the session: it returns before
  the check of the interval time. The last tick of a one-minute session of 60-second
  intervals finds \<open>currentIntervalTime\<close> at 1 and posts \<open>COMPLETED\<close> alone.
\<close>

theorem completing_tick_posts_no_countdown:
  "currentIntervalTime (state (afterTicks 60 1 59)) = 1 \<and>
   totalTimeRemaining (state (afterTicks 60 1 59)) = 1 \<and>
   posts (tick (afterTicks 60 1 59)) = [COMPLETED] \<and>
   COUNTDOWN \<notin> set (posts (tick (afterTicks 60 1 59)))"
  by code_simp

text \<open>
  Claim C5, amended. A tick posts \<open>COUNTDOWN\<close> exactly when it does not complete the
  session and the interval time it finds, before the decrement, lies in \<open>[1, 3]\<close>.
\<close>

theorem countdown_iff_not_completing_and_in_1_3:
  "COUNTDOWN \<in> set (posts (tick w)) \<longleftrightarrow>
     (0 < totalTimeRemaining (state w) - 1 \<and>
      1 \<le> currentIntervalTime (state w) \<and> currentIntervalTime (state w) \<le> 3)"
  by (auto simp add: tick_def Let_def posts_def)

theorem countdown_iff_not_completing_and_in_1_3_witness:
  "currentIntervalTime (state (afterTicks 60 1 57)) = 3 \<and>
   totalTimeRemaining (state (afterTicks 60 1 57)) = 3 \<and>
   COUNTDOWN \<in> set (posts (tick (afterTicks 60 1 57)))"
proof -
  have s: "state (afterTicks 60 1 57) =
      \<lparr>currentIntervalTime = 3, totalTimeRemaining = 3, intervalsCompleted = 0,
       intervalLength = 60, totalDuration = 1\<rparr>"
    by code_simp
  show ?thesis
    using countdown_iff_not_completing_and_in_1_3 [of "afterTicks 60 1 57"]
    by (simp add: s)
qed

text \<open>
  Claim C6, as stated, fails: \<open>INIT_STATE\<close> and \<open>RESET\<close> set \<open>currentIntervalTime\<close> to the
  interval length itself, so the range is closed above. After the three messages the view
  posts when it mounts, the worker holds 60 with an interval length of 60.
\<close>

theorem interval_time_reaches_interval_length:
  "currentIntervalTime
     (state (fst (run [Msg (CONFIGURE 60 20), Msg (INIT_STATE 60 20), Msg (CONFIGURE 60 20)]
                   worker0))) = 60 \<and>
   intervalLength
     (state (fst (run [Msg (CONFIGURE 60 20), Msg (INIT_STATE 60 20), Msg (CONFIGURE 60 20)]
                   worker0))) = 60 \<and>
   \<not> currentIntervalTime
       (state (fst (run [Msg (CONFIGURE 60 20), Msg (INIT_STATE 60 20), Msg (CONFIGURE 60 20)]
                     worker0)))
     < intervalLength
         (state (fst (run [Msg (CONFIGURE 60 20), Msg (INIT_STATE 60 20),
                           Msg (CONFIGURE 60 20)] worker0)))"
  by (simp add: worker0_def)

text \<open>
  Claim C6, amended. In every worker state reached from the initial one by messages and
  ticks in which every \<open>INIT_STATE\<close> is followed at once by a \<open>CONFIGURE\<close> of the same
  interval length or repeats the configured one, every other \<open>CONFIGURE\<close> repeats the
  configured one, and every interval length is at least 1, \<open>currentIntervalTime\<close> lies in
  the closed range \<open>[0, intervalLength]\<close>.
\<close>

theorem interval_time_in_closed_range:
  "follows 60 xs \<Longrightarrow> inIntervalRange (fst (run xs worker0))"
proof -
  assume f: "follows 60 xs"
  have "intervalLength (state worker0) = 60" "inIntervalRange worker0"
    by (simp_all add: worker0_def inIntervalRange_def)
  with follows_range[OF f, of worker0] show ?thesis by simp
qed

theorem interval_time_in_closed_range_witness:
  "follows 60 (session 5 1 @ replicate 7 Fire) \<and>
   currentIntervalTime (state (fst (run (session 5 1 @ replicate 7 Fire) worker0))) = 3 \<and>
   intervalLength (state (fst (run (session 5 1 @ replicate 7 Fire) worker0))) = 5 \<and>
   inIntervalRange (fst (run (session 5 1 @ replicate 7 Fire) worker0))"
proof -
  have f: "follows 60 (session 5 1 @ replicate 7 Fire)"
    by code_simp
  have s: "currentIntervalTime (state (fst (run (session 5 1 @ replicate 7 Fire) worker0))) = 3"
    "intervalLength (state (fst (run (session 5 1 @ replicate 7 Fire) worker0))) = 5"
    by code_simp+
  show ?thesis
    using interval_time_in_closed_range[OF f] f s by simp
qed

text \<open>
  Claim C8. A session is set up with interval length \<open>L \<ge> 1\<close> and started; \<open>INIT_STATE\<close>
  leaves \<open>currentIntervalTime\<close> at \<open>L\<close>. As long as the total has not run out (tick
  \<open>n\<close> with \<open>n < totalDuration * 60\<close>), tick \<open>n\<close> posts \<open>INTERVAL_END\<close> exactly when
  \<open>n\<close> is \<open>L + 1\<close> or a multiple of \<open>L\<close> later, and such a tick leaves
  \<open>currentIntervalTime\<close> at \<open>L - 1\<close>.
\<close>

theorem interval_ends_at_L_plus_1_then_every_L:
  "1 \<le> L \<Longrightarrow> 1 \<le> n \<Longrightarrow> int n < td * 60 \<Longrightarrow>
   currentIntervalTime (state (afterTicks (int L) td 0)) = int L \<and>
   (INTERVAL_END \<in> set (nthTick (int L) td n) \<longleftrightarrow> (\<exists>k. n = L + 1 + k * L)) \<and>
   (INTERVAL_END \<in> set (nthTick (int L) td n) \<longrightarrow>
      currentIntervalTime (state (afterTicks (int L) td n)) = int L - 1)"
proof -
  assume a: "1 \<le> L" "1 \<le> n" "int n < td * 60"
  have w: "(\<exists>k. n = L + 1 + k * L) \<Longrightarrow> L - 1 - (n - 1) mod L = L - 1"
    by auto
  show ?thesis
    using a w nthTick_interval_end[OF a]
    by (auto simp: afterTicks_0 afterTicks_state[OF a(1,3)] simp del: mod_mult_self1 mod_mult_self2)
qed

theorem interval_ends_at_L_plus_1_then_every_L_witness:
  "(1::nat) \<le> 3 \<and> int 7 < 1 * 60 \<and>
   map (\<lambda>n. INTERVAL_END \<in> set (nthTick 3 1 n)) [1, 2, 3, 4, 5, 6, 7] =
     [False, False, False, True, False, False, True] \<and>
   currentIntervalTime (state (afterTicks 3 1 0)) = 3 \<and>
   currentIntervalTime (state (afterTicks 3 1 4)) = 2 \<and>
   currentIntervalTime (state (afterTicks 3 1 7)) = 2"
proof -
  have s: "map (\<lambda>n. INTERVAL_END \<in> set (nthTick 3 1 n)) [1, 2, 3, 4, 5, 6, 7] =
     [False, False, False, True, False, False, True]"
    "currentIntervalTime (state (afterTicks 3 1 0)) = 3"
    "currentIntervalTime (state (afterTicks 3 1 4)) = 2"
    "currentIntervalTime (state (afterTicks 3 1 7)) = 2"
    by code_simp+
  show ?thesis
    using interval_ends_at_L_plus_1_then_every_L [of 3 4 1]
      interval_ends_at_L_plus_1_then_every_L [of 3 7 1] s
    by simp
qed

text \<open>
  Claim C9. \<open>START\<close> with a ticking loop active changes nothing and posts nothing;
  handling \<open>START\<close> twice is handling it once; and in every state reached from the
  initial one at most one repeating timer is registered, the one \<open>timerId\<close> names.
\<close>

theorem start_is_idempotent:
  "(timerId w \<noteq> None \<longrightarrow> onmessage START w = (w, [])) \<and>
   onmessage START (fst (onmessage START w)) = onmessage START w \<and>
   timerInv (fst (run xs worker0)) \<and>
   length (intervals (fst (run xs worker0))) \<le> 1"
  using run_timerInv[OF timerInv_worker0, of xs]
  by (auto simp: setInterval_def split_beta dest: timerInv_length)

theorem start_is_idempotent_witness:
  "timerId (afterTicks 5 1 2) \<noteq> None \<and>
   intervals (afterTicks 5 1 2) = [1] \<and>
   intervals (fst (onmessage START (afterTicks 5 1 2))) = [1] \<and>
   snd (onmessage START (afterTicks 5 1 2)) = [] \<and>
   state (fst (onmessage START (afterTicks 5 1 2))) = state (afterTicks 5 1 2) \<and>
   intervals (fst (run [Msg START, Msg START, Fire, Msg START, Msg START] worker0)) = [2]"
proof -
  have s: "timerId (afterTicks 5 1 2) = Some 1" "intervals (afterTicks 5 1 2) = [1]"
    "intervals (fst (run [Msg START, Msg START, Fire, Msg START, Msg START] worker0)) = [2]"
    by code_simp+
  show ?thesis
    using start_is_idempotent [of "afterTicks 5 1 2" "[]"] s by simp
qed

text \<open>
  Claim C10. \<open>PAUSE\<close> leaves the whole of \<open>state\<close> as it was, posts nothing and sets
  \<open>timerId\<close> to \<open>null\<close>; in a worker whose timer is the one \<open>timerId\<close> names, no repeating
  timer is registered afterwards. A \<open>START\<close> after it registers one again over the same
  \<open>state\<close>, and the ticks that follow give the states and the posts they would have given
  had the worker not been paused.
\<close>

theorem pause_keeps_countdown:
  "state (fst (onmessage PAUSE w)) = state w \<and>
   snd (onmessage PAUSE w) = [] \<and>
   timerId (fst (onmessage PAUSE w)) = None \<and>
   (timerInv w \<longrightarrow>
      intervals (fst (onmessage PAUSE w)) = [] \<and>
      state (fst (run [Msg PAUSE, Msg START] w)) = state w \<and>
      intervals (fst (run [Msg PAUSE, Msg START] w)) \<noteq> [] \<and>
      (intervals w \<noteq> [] \<longrightarrow>
         state (fst (run ([Msg PAUSE, Msg START] @ replicate n Fire) w)) =
           state (fst (run (replicate n Fire) w)) \<and>
         snd (run ([Msg PAUSE, Msg START] @ replicate n Fire) w) =
           snd (run (replicate n Fire) w)))"
proof -
  have a: "state (fst (onmessage PAUSE w)) = state w \<and> snd (onmessage PAUSE w) = [] \<and>
     timerId (fst (onmessage PAUSE w)) = None"
    by (cases "timerId w") simp_all
  have b: "timerInv w \<Longrightarrow> intervals (fst (onmessage PAUSE w)) = []"
    by (cases "timerId w") (simp_all add: timerInv_def)
  have c: "timerInv w \<Longrightarrow> intervals w \<noteq> [] \<Longrightarrow>
     state (fst (run ([Msg PAUSE, Msg START] @ replicate n Fire) w)) =
       state (fst (run (replicate n Fire) w)) \<and>
     snd (run ([Msg PAUSE, Msg START] @ replicate n Fire) w) =
       snd (run (replicate n Fire) w)"
  proof -
    assume i: "timerInv w" and r: "intervals w \<noteq> []"
    let ?v = "fst (run [Msg PAUSE, Msg START] w)"
    have "state (fst (run (replicate n Fire) ?v)) = state (fst (run (replicate n Fire) w)) \<and>
       snd (run (replicate n Fire) ?v) = snd (run (replicate n Fire) w)"
      using fires_depend_on_state[of ?v w n] pause_start[OF i] i r by simp
    then show ?thesis
      using pause_start(4)[OF i]
      by (simp only: run_append_fst run_append_snd append_Nil)
  qed
  show ?thesis
    using a b c pause_start(1,2) by blast
qed

theorem pause_keeps_countdown_witness:
  "timerInv (afterTicks 5 1 2) \<and> intervals (afterTicks 5 1 2) \<noteq> [] \<and>
   intervals (fst (onmessage PAUSE (afterTicks 5 1 2))) = [] \<and>
   state (fst (run [Msg PAUSE, Msg START] (afterTicks 5 1 2))) = state (afterTicks 5 1 2) \<and>
   posts (run ([Msg PAUSE, Msg START] @ replicate 4 Fire) (afterTicks 5 1 2)) =
     [COUNTDOWN, TICK, COUNTDOWN, TICK, COUNTDOWN, TICK, INTERVAL_END] \<and>
   snd (run ([Msg PAUSE, Msg START] @ replicate 4 Fire) (afterTicks 5 1 2)) =
     snd (run (replicate 4 Fire) (afterTicks 5 1 2))"
proof -
  have s: "timerInv (afterTicks 5 1 2)" "intervals (afterTicks 5 1 2) = [1]"
    "posts (run ([Msg PAUSE, Msg START] @ replicate 4 Fire) (afterTicks 5 1 2)) =
     [COUNTDOWN, TICK, COUNTDOWN, TICK, COUNTDOWN, TICK, INTERVAL_END]"
    by code_simp+
  show ?thesis
    using pause_keeps_countdown [of "afterTicks 5 1 2" 4] s
    by (simp del: run.simps onmessage.simps step.simps)
qed

section \<open>The audio service: resuming and falling back\<close>


lemma resume_frame:
  "tickIdx (snd (resume a)) = tickIdx a" "dingIdx (snd (resume a)) = dingIdx a"
  "IS_MOBILE (snd (resume a)) = IS_MOBILE a" "sounds (snd (resume a)) = sounds a"
  "constructs (snd (resume a)) = constructs a" "resumes (snd (resume a)) = resumes a"
  "constructed (snd (resume a)) = constructed a" "resumed (snd (resume a)) = Suc (resumed a)"
  by (simp_all add: resume_def Let_def)

lemma ensureContextReady_frame:
  "tickIdx (snd (ensureContextReady a)) = tickIdx a \<and>
   dingIdx (snd (ensureContextReady a)) = dingIdx a \<and>
   IS_MOBILE (snd (ensureContextReady a)) = IS_MOBILE a \<and>
   sounds (snd (ensureContextReady a)) = sounds a"
  by (simp add: ensureContextReady_def initCtx_def resume_def Let_def
      split: option.splits)







text \<open>The pool indices start inside the pools and never leave them.\<close>

lemma playFromPool_keeps_indices:
  "tickIdx a < POOL_SIZE \<Longrightarrow> dingIdx a < POOL_SIZE \<Longrightarrow>
   tickIdx (snd (playFromPool p a)) < POOL_SIZE \<and> dingIdx (snd (playFromPool p a)) < POOL_SIZE"
  by (cases p) (simp_all add: playFromPool_def POOL_SIZE_def Let_def)

lemma play_pool_keeps_indices:
  assumes "tickIdx a < POOL_SIZE" "dingIdx a < POOL_SIZE"
  shows "tickIdx (snd (playTick_pool a)) < POOL_SIZE \<and> dingIdx (snd (playTick_pool a)) < POOL_SIZE"
    and "tickIdx (snd (playDing_pool a)) < POOL_SIZE \<and> dingIdx (snd (playDing_pool a)) < POOL_SIZE"
proof -
  obtain x b where e: "ensureContextReady a = (x, b)"
    by (cases "ensureContextReady a")
  have b: "tickIdx b < POOL_SIZE" "dingIdx b < POOL_SIZE"
    using assms ensureContextReady_frame[of a] by (simp_all add: e)
  obtain y c where t: "playFromPool TickPool b = (y, c)"
    by (cases "playFromPool TickPool b")
  obtain z d where d: "playFromPool DingPool b = (z, d)"
    by (cases "playFromPool DingPool b")
  have c: "tickIdx c < POOL_SIZE \<and> dingIdx c < POOL_SIZE"
    using playFromPool_keeps_indices[OF b, of TickPool] by (simp add: t)
  have d': "tickIdx d < POOL_SIZE \<and> dingIdx d < POOL_SIZE"
    using playFromPool_keeps_indices[OF b, of DingPool] by (simp add: d)
  show "tickIdx (snd (playTick_pool a)) < POOL_SIZE \<and> dingIdx (snd (playTick_pool a)) < POOL_SIZE"
    using b c by (cases x; cases y) (simp_all add: playTick_pool_def e t split: option.splits)
  show "tickIdx (snd (playDing_pool a)) < POOL_SIZE \<and> dingIdx (snd (playDing_pool a)) < POOL_SIZE"
    using b d' by (cases x; cases z) (simp_all add: playDing_pool_def e d split: option.splits)
qed

lemma newAudioService_indices:
  "tickIdx (newAudioService m cs rs) < POOL_SIZE \<and> dingIdx (newAudioService m cs rs) < POOL_SIZE"
  by (simp add: newAudioService_def POOL_SIZE_def)




end
